theory Spec2Isabelle
  imports Complex_Main "HOL-Library.Word" "HOL-Library.Multiset"
begin

section \<open>The GIF-to-spritesheet processor (lib/gif-processor)\<close>

text \<open>
  The module exports two functions: \<open>extractFrames\<close>, which turns the frames delivered by
  the GIF decoder into \<open>SpriteFrame\<close> values, and \<open>generateSpritesheet\<close>, which lays the
  frames out on one canvas and returns the canvas size together with one placement per frame.

  JavaScript numbers are IEEE doubles. The model uses mathematical integers (\<open>int\<close>) for
  every number: frame sizes, delays, the padding, the column count and the frame count are
  integers, and on integers of the sizes an array length allows every operation of the
  source (\<open>+\<close>, \<open>*\<close>, \<open>%\<close>, \<open>Math.floor(i / cols)\<close>, \<open>Math.ceil(count / cols)\<close>,
  \<open>Math.ceil(Math.sqrt(count))\<close>) is exact. Fractional values, \<open>NaN\<close> and infinities are
  outside the model.
\<close>

subsection \<open>Data model\<close>

datatype LayoutMode = Horizontal | Vertical | Grid

text \<open>\<open>columns\<close> is an optional property: \<open>None\<close> is \<open>undefined\<close>.\<close>

record ProcessingConfig =
  layout :: LayoutMode
  padding :: int
  columns :: "int option"

record Dims =
  width :: int
  height :: int
  dims_top :: int
  dims_left :: int

text \<open>
  \<open>ImageData\<close> is the platform's pixel container: a flat RGBA byte array with its width and
  height. The constructor is taken as a plain record constructor; the validation the
  platform performs on the buffer length is not part of the source.
\<close>

record ImageData =
  img_data :: "8 word list"
  img_width :: int
  img_height :: int

record SpriteFrame =
  frame_id :: int
  imageData :: ImageData
  dims :: Dims
  delay :: int

text \<open>One entry of \<open>SpriteSheetResult.frames\<close>: the fields \<open>x\<close>, \<open>y\<close>, \<open>w\<close>, \<open>h\<close>, \<open>duration\<close>.\<close>

record SpriteData =
  at_x :: int
  at_y :: int
  at_w :: int
  at_h :: int
  duration :: int

record ('blob, 'url) SpriteSheetResult =
  blob :: 'blob
  url :: 'url
  sheet_width :: int
  sheet_height :: int
  sheet_frames :: "SpriteData list"

text \<open>
  What the decoder (\<open>decompressFrames(gif, true)\<close> of gifuct-js) delivers per frame, as far
  as \<open>extractFrames\<close> reads it.
\<close>

record ParsedFrame =
  patch :: "8 word list"
  parsed_dims :: Dims
  parsed_delay :: int

text \<open>
  The canvas is modelled by its size and the log of the \<open>putImageData\<close> calls made on its
  context, in call order. Encoding the canvas and wrapping the bytes in a URL are platform
  operations, taken as parameters, as is the answer of \<open>canvas.getContext('2d')\<close>.
\<close>

record OffscreenCanvas =
  canvas_width :: int
  canvas_height :: int
  draws :: "(ImageData \<times> int \<times> int) list"

record ('blob, 'url) platform =
  getContext :: "OffscreenCanvas \<Rightarrow> bool"
  convertToBlob :: "OffscreenCanvas \<Rightarrow> 'blob"
  createObjectURL :: "'blob \<Rightarrow> 'url"

datatype error = No_frames_to_process | Could_not_get_2D_context

subsection \<open>Number operations of the source\<close>

text \<open>
  \<open>a % b\<close>: the remainder takes the sign of the dividend. It is only applied with
  \<open>b \<noteq> 0\<close> (the column count is never 0).
\<close>

definition js_rem :: "int \<Rightarrow> int \<Rightarrow> int" where
  "js_rem a b = sgn a * (\<bar>a\<bar> mod \<bar>b\<bar>)"

text \<open>\<open>Math.floor(a / b)\<close> and \<open>Math.ceil(a / b)\<close> on integers, \<open>b \<noteq> 0\<close>.\<close>

definition Math_floor_div :: "int \<Rightarrow> int \<Rightarrow> int" where
  "Math_floor_div a b = a div b"

definition Math_ceil_div :: "int \<Rightarrow> int \<Rightarrow> int" where
  "Math_ceil_div a b = - ((- a) div b)"

text \<open>\<open>Math.ceil(Math.sqrt(n))\<close>: the least \<open>k\<close> with \<open>n \<le> k * k\<close>, found by counting up.\<close>

function sqrt_up :: "nat \<Rightarrow> nat \<Rightarrow> nat" where
  "sqrt_up k n = (if n \<le> k * k then k else sqrt_up (Suc k) n)"
  by pat_completeness auto
termination
  by (relation "measure (\<lambda>(k, n). n - k * k)") auto

definition Math_ceil_sqrt :: "int \<Rightarrow> int" where
  "Math_ceil_sqrt n = int (sqrt_up 0 (nat n))"

text \<open>
  \<open>Math.max(...xs)\<close>. The source applies it to the widths and heights of a frame array it
  has already checked to be non-empty, so only that case is given.
\<close>

fun Math_max :: "int list \<Rightarrow> int" where
  "Math_max (x # xs) = fold max xs x"

subsection \<open>extractFrames\<close>

text \<open>
  \<open>frames.map((frame, index) => ...)\<close> over the decoder's frames. The decoder itself
  (\<open>parseGIF\<close>, \<open>decompressFrames\<close>) is a parameter; when it throws, the error leaves
  \<open>extractFrames\<close> unchanged.
\<close>

definition to_SpriteFrame :: "nat \<times> ParsedFrame \<Rightarrow> SpriteFrame" where
  "to_SpriteFrame = (\<lambda>(index, frame).
     \<lparr> frame_id = int index,
       imageData = \<lparr> img_data = patch frame,
                     img_width = width (parsed_dims frame),
                     img_height = height (parsed_dims frame) \<rparr>,
       dims = \<lparr> width = width (parsed_dims frame),
                height = height (parsed_dims frame),
                dims_top = dims_top (parsed_dims frame),
                dims_left = dims_left (parsed_dims frame) \<rparr>,
       delay = parsed_delay frame \<rparr>)"

definition extractFrames ::
  "('file \<Rightarrow> 'e + ParsedFrame list) \<Rightarrow> 'file \<Rightarrow> 'e + SpriteFrame list" where
  "extractFrames decode file =
     (case decode file of
        Inl e \<Rightarrow> Inl e
      | Inr frames \<Rightarrow> Inr (map to_SpriteFrame (enumerate 0 frames)))"

subsection \<open>generateSpritesheet\<close>

text \<open>Lines 110 to 124: the grid shape \<open>(cols, rows)\<close> for \<open>count\<close> frames (\<open>frameCount\<close> below).\<close>

definition resolve_grid :: "int \<Rightarrow> ProcessingConfig \<Rightarrow> int \<times> int" where
  "resolve_grid frameCount config =
     (case layout config of
        Horizontal \<Rightarrow> (frameCount, 1)
      | Vertical \<Rightarrow> (1, frameCount)
      | Grid \<Rightarrow>
          (let preferredCols =
                 (case columns config of
                    None \<Rightarrow> Math_ceil_sqrt frameCount
                  | Some c \<Rightarrow> if c = 0 then Math_ceil_sqrt frameCount else c);
               cols = preferredCols;
               rows = Math_ceil_div frameCount cols
           in (cols, rows)))"

text \<open>Lines 153 to 157: the cell origin of the frame at position \<open>i\<close>.\<close>

definition cell_origin :: "int \<Rightarrow> int \<Rightarrow> int \<Rightarrow> int \<Rightarrow> int \<Rightarrow> int \<times> int" where
  "cell_origin cols maxWidth maxHeight pad i =
     (let col = js_rem i cols;
          row = Math_floor_div i cols;
          x = col * (maxWidth + pad);
          y = row * (maxHeight + pad)
      in (x, y))"

text \<open>
  Lines 152 to 171: the loop over \<open>i\<close>, carrying the canvas and the \<open>spriteData\<close> array.
\<close>

function place_frames ::
  "SpriteFrame list \<Rightarrow> int \<Rightarrow> int \<Rightarrow> int \<Rightarrow> int \<Rightarrow> nat \<Rightarrow>
     OffscreenCanvas \<times> SpriteData list \<Rightarrow> OffscreenCanvas \<times> SpriteData list" where
  "place_frames frames cols maxWidth maxHeight pad i (canvas, spriteData) =
     (if i < length frames then
        (let (x, y) = cell_origin cols maxWidth maxHeight pad (int i);
             frame = frames ! i;
             canvas' = canvas\<lparr> draws := draws canvas @ [(imageData frame, x, y)] \<rparr>;
             spriteData' = spriteData @
               [\<lparr> at_x = x, at_y = y, at_w = width (dims frame), at_h = height (dims frame),
                   duration = delay frame \<rparr>]
         in place_frames frames cols maxWidth maxHeight pad (Suc i) (canvas', spriteData'))
      else (canvas, spriteData))"
  by pat_completeness auto
termination
  by (relation "measure (\<lambda>(frames, cols, maxWidth, maxHeight, pad, i, s). length frames - i)")
     auto

definition generateSpritesheet ::
  "('blob, 'url) platform \<Rightarrow> SpriteFrame list \<Rightarrow> ProcessingConfig \<Rightarrow>
     error + ('blob, 'url) SpriteSheetResult" where
  "generateSpritesheet pf frames config =
     (if length frames = 0 then Inl No_frames_to_process
      else
        (let pad = padding config;
             frameCount = int (length frames);
             (cols, rows) = resolve_grid frameCount config;
             maxWidth = Math_max (map (\<lambda>f. width (dims f)) frames);
             maxHeight = Math_max (map (\<lambda>f. height (dims f)) frames);
             totalWidth = cols * maxWidth + (cols - 1) * pad;
             totalHeight = rows * maxHeight + (rows - 1) * pad;
             canvas = \<lparr> canvas_width = totalWidth, canvas_height = totalHeight, draws = [] \<rparr>
         in if \<not> getContext pf canvas then Inl Could_not_get_2D_context
            else
              (let (canvas', spriteData) =
                     place_frames frames cols maxWidth maxHeight pad 0 (canvas, []);
                   blob = convertToBlob pf canvas';
                   url = createObjectURL pf blob
               in Inr \<lparr> blob = blob, url = url, sheet_width = totalWidth,
                        sheet_height = totalHeight, sheet_frames = spriteData \<rparr>)))"

subsection \<open>The composite\<close>

text \<open>
  What the logged \<open>putImageData\<close> calls mean for the pixels of the canvas.
  \<open>putImageData(img, dx, dy)\<close> copies the pixel at column \<open>i\<close>, row \<open>j\<close> of the image to the
  canvas position \<open>(dx + i, dy + j)\<close>, replacing what was there; it touches no other
  position. A pixel is its four bytes in the flat RGBA array. The canvas starts fully
  transparent, and positions outside the canvas hold no pixel.
\<close>

definition image_pixel :: "ImageData \<Rightarrow> int \<Rightarrow> int \<Rightarrow> 8 word list" where
  "image_pixel img i j = take 4 (drop (4 * nat (j * img_width img + i)) (img_data img))"

definition covers :: "ImageData \<times> int \<times> int \<Rightarrow> int \<times> int \<Rightarrow> bool" where
  "covers = (\<lambda>(img, dx, dy) (a, b).
     dx \<le> a \<and> a < dx + img_width img \<and> dy \<le> b \<and> b < dy + img_height img)"

definition putImageData ::
  "ImageData \<times> int \<times> int \<Rightarrow> (int \<times> int \<Rightarrow> 8 word list) \<Rightarrow> int \<times> int \<Rightarrow> 8 word list" where
  "putImageData = (\<lambda>(img, dx, dy) surface (a, b).
     if covers (img, dx, dy) (a, b) then image_pixel img (a - dx) (b - dy) else surface (a, b))"

definition composite :: "OffscreenCanvas \<Rightarrow> int \<times> int \<Rightarrow> 8 word list" where
  "composite canvas = (\<lambda>(a, b).
     if 0 \<le> a \<and> a < canvas_width canvas \<and> 0 \<le> b \<and> b < canvas_height canvas
     then fold putImageData (draws canvas) (\<lambda>_. [0, 0, 0, 0]) (a, b)
     else [])"

subsection \<open>Input conventions\<close>

text \<open>
  The interface normalises the column count before it reaches \<open>generateSpritesheet\<close>
  (Sidebar: \<open>onColumnsChange(Math.max(1, parseInt(e.target.value) || 1))\<close>, initial value 5),
  so a column count that is present is at least 1.
\<close>

definition valid_columns :: "ProcessingConfig \<Rightarrow> bool" where
  "valid_columns config = (case columns config of None \<Rightarrow> True | Some c \<Rightarrow> 1 \<le> c)"

text \<open>
  The pixels of the cell whose top-left corner is the origin of placement \<open>p\<close>: the
  rectangle of \<open>cellWidth\<close> by \<open>cellHeight\<close> pixels at \<open>(x, y)\<close>.
\<close>

definition cell_pixels :: "int \<Rightarrow> int \<Rightarrow> SpriteData \<Rightarrow> (int \<times> int) set" where
  "cell_pixels cellWidth cellHeight p =
     {(a, b). at_x p \<le> a \<and> a < at_x p + cellWidth \<and> at_y p \<le> b \<and> b < at_y p + cellHeight}"

subsection \<open>Example inputs\<close>

text \<open>
  A frame of the given position, size and delay with fully transparent pixels, a platform
  that always supplies a drawing context and returns the canvas itself as blob and URL,
  and the frames of a four-frame example: sizes 8 by 8, 10 by 6, 6 by 10 and 10 by 10.
\<close>

definition sized_frame :: "int \<Rightarrow> int \<Rightarrow> int \<Rightarrow> int \<Rightarrow> SpriteFrame" where
  "sized_frame n w h d =
     \<lparr> frame_id = n,
       imageData = \<lparr> img_data = replicate (nat (4 * w * h)) 0, img_width = w, img_height = h \<rparr>,
       dims = \<lparr> width = w, height = h, dims_top = 0, dims_left = 0 \<rparr>,
       delay = d \<rparr>"

definition example_platform :: "(OffscreenCanvas, OffscreenCanvas) platform" where
  "example_platform =
     \<lparr> getContext = (\<lambda>c. True), convertToBlob = (\<lambda>c. c), createObjectURL = (\<lambda>b. b) \<rparr>"

definition four_frames :: "SpriteFrame list" where
  "four_frames =
     [sized_frame 0 8 8 40, sized_frame 1 10 6 50, sized_frame 2 6 10 60, sized_frame 3 10 10 70]"

definition three_frames :: "SpriteFrame list" where
  "three_frames = [sized_frame 0 10 10 40, sized_frame 1 10 10 50, sized_frame 2 10 10 60]"

definition grid_2_config :: ProcessingConfig where
  "grid_2_config = \<lparr> layout = Grid, padding = 2, columns = Some 2 \<rparr>"

section \<open>Auxiliary facts\<close>

declare sqrt_up.simps [simp del]
declare place_frames.simps [simp del]

subsection \<open>The number operations\<close>

lemma sqrt_up_spec:
  "k = 0 \<or> (k - 1) * (k - 1) < n \<Longrightarrow>
   n \<le> sqrt_up k n * sqrt_up k n \<and> (sqrt_up k n = 0 \<or> (sqrt_up k n - 1) * (sqrt_up k n - 1) < n)"
proof (induction k n rule: sqrt_up.induct)
  case (1 k n)
  show ?case
  proof (cases "n \<le> k * k")
    case True
    then show ?thesis using "1.prems" by (simp add: sqrt_up.simps [of k n])
  next
    case False
    then have "Suc k = 0 \<or> (Suc k - 1) * (Suc k - 1) < n" by simp
    from "1.IH" [OF False this] False show ?thesis
      by (simp add: sqrt_up.simps [of k n])
  qed
qed

lemma Math_ceil_sqrt_real:
  assumes "0 \<le> n"
  shows "Math_ceil_sqrt n = \<lceil>sqrt (real_of_int n)\<rceil>"
proof -
  define r where "r = sqrt_up 0 (nat n)"
  have up: "nat n \<le> r * r" and low: "r = 0 \<or> (r - 1) * (r - 1) < nat n"
    using sqrt_up_spec [of 0 "nat n"] by (simp_all add: r_def)
  have n: "real_of_int n = real (nat n)" using assms by simp
  have "real (nat n) \<le> real (r * r)"
    using up by (simp only: of_nat_le_iff)
  then have "real (nat n) \<le> (real r)\<^sup>2"
    by (simp add: power2_eq_square)
  then have le: "sqrt (real_of_int n) \<le> real r"
    unfolding n by (rule real_le_lsqrt [OF of_nat_0_le_iff])
  have gt: "real r - 1 < sqrt (real_of_int n)"
  proof (cases "r = 0")
    case True
    have "(- 1 :: real) < 0" by simp
    also have "0 \<le> sqrt (real_of_int n)" using assms by simp
    finally show ?thesis by (simp add: True)
  next
    case False
    then have "(r - 1) * (r - 1) < nat n" using low by simp
    then have "real ((r - 1) * (r - 1)) < real (nat n)"
      by (simp only: of_nat_less_iff)
    then have "(real (r - 1))\<^sup>2 < real (nat n)"
      by (simp add: power2_eq_square)
    then have "real (r - 1) < sqrt (real_of_int n)"
      unfolding n by (rule real_less_rsqrt)
    then show ?thesis using False by simp
  qed
  have "\<lceil>sqrt (real_of_int n)\<rceil> = int r"
  proof (rule ceiling_unique)
    show "real_of_int (int r) - 1 < sqrt (real_of_int n)" using gt by simp
    show "sqrt (real_of_int n) \<le> real_of_int (int r)" using le by simp
  qed
  then show ?thesis by (simp add: Math_ceil_sqrt_def r_def)
qed

lemma Math_floor_div_real:
  "Math_floor_div a b = \<lfloor>real_of_int a / real_of_int b\<rfloor>"
  by (simp add: Math_floor_div_def floor_divide_of_int_eq)

lemma Math_ceil_div_real:
  "Math_ceil_div a b = \<lceil>real_of_int a / real_of_int b\<rceil>"
  by (simp add: Math_ceil_div_def ceiling_divide_eq_div)

lemma js_rem_truncated:
  "b \<noteq> 0 \<Longrightarrow> js_rem a b = a - b * (sgn a * sgn b * (\<bar>a\<bar> div \<bar>b\<bar>))"
proof -
  assume "b \<noteq> 0"
  have "\<bar>a\<bar> = \<bar>b\<bar> * (\<bar>a\<bar> div \<bar>b\<bar>) + \<bar>a\<bar> mod \<bar>b\<bar>" by simp
  then have "sgn a * \<bar>a\<bar> = sgn a * (\<bar>b\<bar> * (\<bar>a\<bar> div \<bar>b\<bar>)) + sgn a * (\<bar>a\<bar> mod \<bar>b\<bar>)"
    by (metis distrib_left)
  moreover have "sgn a * \<bar>a\<bar> = a" by (simp add: mult_sgn_abs)
  moreover have "sgn a * (\<bar>b\<bar> * (\<bar>a\<bar> div \<bar>b\<bar>)) = b * (sgn a * sgn b * (\<bar>a\<bar> div \<bar>b\<bar>))"
    by (simp add: abs_sgn mult.commute mult.left_commute)
  ultimately show ?thesis by (simp add: js_rem_def)
qed

lemma Math_max_Max: "xs \<noteq> [] \<Longrightarrow> Math_max xs = Max (set xs)"
  by (cases xs) (simp_all add: Max.set_eq_fold [symmetric])

lemma place_frames_eq:
  "i \<le> length frames \<Longrightarrow>
   place_frames frames cols mw mh p i (cv, sd) =
     (cv\<lparr> draws := draws cv @
          map (\<lambda>j. (imageData (frames ! j), cell_origin cols mw mh p (int j))) [i..<length frames] \<rparr>,
      sd @ map (\<lambda>j. \<lparr> at_x = fst (cell_origin cols mw mh p (int j)),
                       at_y = snd (cell_origin cols mw mh p (int j)),
                       at_w = width (dims (frames ! j)), at_h = height (dims (frames ! j)),
                       duration = delay (frames ! j) \<rparr>) [i..<length frames])"
proof (induction frames cols mw mh p i "(cv, sd)" arbitrary: cv sd rule: place_frames.induct)
  case (1 frames cols mw mh p i cv sd)
  show ?case
  proof (cases "i < length frames")
    case True
    obtain x y where xy: "cell_origin cols mw mh p (int i) = (x, y)" by force
    have "Suc i \<le> length frames" using True by simp
    note IH = "1.hyps" [OF True xy [symmetric] refl refl refl refl this]
    show ?thesis
      by (subst place_frames.simps) (simp add: True xy IH upt_conv_Cons Let_def)
  next
    case False
    then show ?thesis using "1.prems"
      by (subst place_frames.simps) simp
  qed
qed

subsection \<open>The loop and the result\<close>

lemma generateSpritesheet_Inr:
  assumes ne: "frames \<noteq> []" and ctx: "\<And>c. getContext pf c"
    and grid: "resolve_grid (int (length frames)) config = (cols, rows)"
  shows "\<exists>r. generateSpritesheet pf frames config = Inr r \<and>
     sheet_width r = cols * Max ((\<lambda>f. width (dims f)) ` set frames) + (cols - 1) * padding config \<and>
     sheet_height r = rows * Max ((\<lambda>f. height (dims f)) ` set frames) + (rows - 1) * padding config \<and>
     sheet_frames r = map (\<lambda>j.
       \<lparr> at_x = fst (cell_origin cols (Max ((\<lambda>f. width (dims f)) ` set frames))
                     (Max ((\<lambda>f. height (dims f)) ` set frames)) (padding config) (int j)),
         at_y = snd (cell_origin cols (Max ((\<lambda>f. width (dims f)) ` set frames))
                     (Max ((\<lambda>f. height (dims f)) ` set frames)) (padding config) (int j)),
         at_w = width (dims (frames ! j)), at_h = height (dims (frames ! j)),
         duration = delay (frames ! j) \<rparr>) [0..<length frames] \<and>
     blob r = convertToBlob pf
       \<lparr> canvas_width = sheet_width r, canvas_height = sheet_height r,
         draws = map (\<lambda>j. (imageData (frames ! j),
                    cell_origin cols (Max ((\<lambda>f. width (dims f)) ` set frames))
                      (Max ((\<lambda>f. height (dims f)) ` set frames)) (padding config) (int j)))
                  [0..<length frames] \<rparr> \<and>
     url r = createObjectURL pf (blob r)"
proof -
  have mw: "Math_max (map (\<lambda>f. width (dims f)) frames) = Max ((\<lambda>f. width (dims f)) ` set frames)"
    using Math_max_Max [of "map (\<lambda>f. width (dims f)) frames"] ne by simp
  have mh: "Math_max (map (\<lambda>f. height (dims f)) frames) = Max ((\<lambda>f. height (dims f)) ` set frames)"
    using Math_max_Max [of "map (\<lambda>f. height (dims f)) frames"] ne by simp
  show ?thesis
    unfolding generateSpritesheet_def mw mh
    by (simp add: ne ctx grid place_frames_eq Let_def)
qed

lemma generateSpritesheet_length:
  assumes "generateSpritesheet pf frames config = Inr r"
  shows "length (sheet_frames r) = length frames"
  using assms
  by (auto simp: generateSpritesheet_def place_frames_eq Let_def split_beta split: if_splits)

subsection \<open>Positions and grid shape\<close>

lemma js_rem_nonneg: "0 \<le> a \<Longrightarrow> js_rem a b = a mod \<bar>b\<bar>"
  by (cases "a = 0") (simp_all add: js_rem_def)

lemma js_rem_pos: "0 \<le> a \<Longrightarrow> 0 < b \<Longrightarrow> js_rem a b = a mod b"
  by (simp add: js_rem_nonneg)

lemma cell_index_inj:
  assumes i: "0 \<le> i" and j: "0 \<le> j" and c: "c \<noteq> 0"
    and col: "js_rem i c = js_rem j c" and row: "Math_floor_div i c = Math_floor_div j c"
  shows "i = j"
proof -
  have "i mod \<bar>c\<bar> = j mod \<bar>c\<bar>"
    using col i j by (simp add: js_rem_nonneg)
  then have "\<bar>c\<bar> dvd i - j"
    by (simp add: mod_eq_dvd_iff)
  then have dvd: "c dvd i - j" by simp
  define q where "q = i div c"
  have "c * q + i mod c = i" by (simp add: q_def)
  moreover have "c * q + j mod c = j"
    using row by (simp add: q_def Math_floor_div_def)
  ultimately have diff: "i - j = i mod c - j mod c" by linarith
  have "\<bar>i mod c - j mod c\<bar> < \<bar>c\<bar>"
  proof (cases "0 < c")
    case True
    then have "0 \<le> i mod c" "i mod c < c" "0 \<le> j mod c" "j mod c < c" by simp_all
    then show ?thesis by linarith
  next
    case False
    then have "c < 0" using c by simp
    then have "i mod c \<le> 0" "c < i mod c" "j mod c \<le> 0" "c < j mod c" by simp_all
    then show ?thesis by linarith
  qed
  then have "\<bar>i - j\<bar> < \<bar>c\<bar>" by (simp only: diff)
  then have "i - j = 0"
    using dvd by (meson dvd_imp_le_int not_less)
  then show ?thesis by simp
qed

lemma sqrt_up_pos: "0 < n \<Longrightarrow> 0 < sqrt_up 0 n"
  using sqrt_up_spec [of 0 n] by (cases "sqrt_up 0 n") simp_all

lemma Math_ceil_sqrt_pos: "1 \<le> n \<Longrightarrow> 1 \<le> Math_ceil_sqrt n"
  using sqrt_up_pos [of "nat n"] by (simp add: Math_ceil_sqrt_def)

lemma Math_ceil_div_pos:
  assumes "1 \<le> a" and "1 \<le> b"
  shows "1 \<le> Math_ceil_div a b" and "a \<le> b * Math_ceil_div a b"
proof -
  have "(- a) div b < 0" using assms by (simp add: pos_imp_zdiv_neg_iff)
  then show "1 \<le> Math_ceil_div a b" by (simp add: Math_ceil_div_def)
  have "b * ((- a) div b) + (- a) mod b = - a" by (rule mult_div_mod_eq)
  moreover have "0 \<le> (- a) mod b" using assms by simp
  ultimately have "b * ((- a) div b) \<le> - a" by linarith
  then show "a \<le> b * Math_ceil_div a b" by (simp add: Math_ceil_div_def)
qed

lemma resolve_grid_cols_nonzero:
  assumes "1 \<le> frameCount"
  shows "fst (resolve_grid frameCount config) \<noteq> 0"
  using assms Math_ceil_sqrt_pos [of frameCount]
  by (auto simp: resolve_grid_def Let_def split: LayoutMode.splits option.splits)

lemma resolve_grid_bounds:
  assumes "valid_columns config" and "1 \<le> frameCount"
    and "resolve_grid frameCount config = (cols, rows)"
  shows "1 \<le> cols" and "1 \<le> rows" and "frameCount \<le> cols * rows"
proof -
  have "1 \<le> cols \<and> 1 \<le> rows \<and> frameCount \<le> cols * rows"
  proof (cases "layout config")
    case Horizontal
    then show ?thesis using assms by (simp add: resolve_grid_def)
  next
    case Vertical
    then show ?thesis using assms by (simp add: resolve_grid_def)
  next
    case Grid
    define pc where "pc = (case columns config of None \<Rightarrow> Math_ceil_sqrt frameCount
                           | Some c \<Rightarrow> if c = 0 then Math_ceil_sqrt frameCount else c)"
    have pc: "1 \<le> pc"
      using assms(1) Math_ceil_sqrt_pos [OF assms(2)]
      by (simp add: pc_def valid_columns_def split: option.splits)
    have "cols = pc" "rows = Math_ceil_div frameCount pc"
      using assms(3) Grid by (auto simp: resolve_grid_def pc_def Let_def)
    then show ?thesis
      using Math_ceil_div_pos [OF assms(2) pc] pc by simp
  qed
  then show "1 \<le> cols" and "1 \<le> rows" and "frameCount \<le> cols * rows" by simp_all
qed

subsection \<open>Cell geometry\<close>

lemma overlap_same_index:
  fixes k1 k2 P w a :: int
  assumes "w \<le> P"
    and "k1 * P \<le> a" and "a < k1 * P + w"
    and "k2 * P \<le> a" and "a < k2 * P + w"
  shows "k1 = k2"
proof (rule ccontr)
  assume ne: "k1 \<noteq> k2"
  have P: "0 \<le> P" using assms by linarith
  have step: "False" if "k < k'" "k' * P \<le> a" "a < k * P + w" for k k'
  proof -
    have "(k + 1) * P \<le> k' * P"
      using that(1) P by (intro mult_right_mono) simp_all
    then have "k * P + P \<le> k' * P" by (simp add: algebra_simps)
    with that(2,3) assms(1) show False by linarith
  qed
  from ne consider "k1 < k2" | "k2 < k1" by linarith
  then show False
    using step [of k1 k2] step [of k2 k1] assms by cases simp_all
qed

lemma shared_pixel_same_index:
  assumes ij: "0 \<le> i" "0 \<le> j" and c: "c \<noteq> 0" and p: "0 \<le> p"
    and i: "fst (cell_origin c mw mh p i) \<le> a" "a < fst (cell_origin c mw mh p i) + mw"
           "snd (cell_origin c mw mh p i) \<le> b" "b < snd (cell_origin c mw mh p i) + mh"
    and j: "fst (cell_origin c mw mh p j) \<le> a" "a < fst (cell_origin c mw mh p j) + mw"
           "snd (cell_origin c mw mh p j) \<le> b" "b < snd (cell_origin c mw mh p j) + mh"
  shows "i = j"
proof -
  have mw: "mw \<le> mw + p" and mh: "mh \<le> mh + p" using p by simp_all
  have xi: "js_rem i c * (mw + p) \<le> a" "a < js_rem i c * (mw + p) + mw"
    and yi: "Math_floor_div i c * (mh + p) \<le> b" "b < Math_floor_div i c * (mh + p) + mh"
    using i by (simp_all add: cell_origin_def Let_def)
  have xj: "js_rem j c * (mw + p) \<le> a" "a < js_rem j c * (mw + p) + mw"
    and yj: "Math_floor_div j c * (mh + p) \<le> b" "b < Math_floor_div j c * (mh + p) + mh"
    using j by (simp_all add: cell_origin_def Let_def)
  have col: "js_rem i c = js_rem j c"
    by (rule overlap_same_index [OF mw xi xj])
  have row: "Math_floor_div i c = Math_floor_div j c"
    by (rule overlap_same_index [OF mh yi yj])
  show ?thesis
    by (rule cell_index_inj [OF ij c col row])
qed

lemma cells_disjoint:
  assumes ij: "0 \<le> i" "0 \<le> j" "i \<noteq> j" and c: "c \<noteq> 0" and p: "0 \<le> p"
  shows "{(a, b). fst (cell_origin c mw mh p i) \<le> a \<and> a < fst (cell_origin c mw mh p i) + mw \<and>
                  snd (cell_origin c mw mh p i) \<le> b \<and> b < snd (cell_origin c mw mh p i) + mh} \<inter>
         {(a, b). fst (cell_origin c mw mh p j) \<le> a \<and> a < fst (cell_origin c mw mh p j) + mw \<and>
                  snd (cell_origin c mw mh p j) \<le> b \<and> b < snd (cell_origin c mw mh p j) + mh} = {}"
  using shared_pixel_same_index [OF ij(1,2) c p, of mw mh] ij(3) by blast

lemma cell_within_bounds:
  fixes k n m p w :: int
  assumes "0 \<le> k" and "k \<le> n - 1" and "0 \<le> m + p" and "w \<le> m"
  shows "0 \<le> k * (m + p)" and "k * (m + p) + w \<le> n * m + (n - 1) * p"
proof -
  show "0 \<le> k * (m + p)" using assms(1,3) by simp
  have "k * (m + p) \<le> (n - 1) * (m + p)"
    using assms(2,3) by (rule mult_right_mono)
  moreover have "(n - 1) * (m + p) + m = n * m + (n - 1) * p"
    by (simp add: algebra_simps)
  ultimately show "k * (m + p) + w \<le> n * m + (n - 1) * p"
    using assms(4) by linarith
qed

lemma index_in_grid:
  fixes i cols rows frameCount :: int
  assumes "0 \<le> i" and "i < frameCount" and "1 \<le> cols" and "frameCount \<le> cols * rows"
  shows "0 \<le> i mod cols" and "i mod cols \<le> cols - 1"
    and "0 \<le> i div cols" and "i div cols \<le> rows - 1"
proof -
  show "0 \<le> i mod cols" "i mod cols \<le> cols - 1"
    using assms(3) pos_mod_bound [of cols i] by simp_all
  show "0 \<le> i div cols" using assms(1,3) by (simp add: pos_imp_zdiv_nonneg_iff)
  have "cols * (i div cols) + i mod cols = i" by simp
  moreover have "0 \<le> i mod cols" using assms(3) by simp
  ultimately have "cols * (i div cols) < cols * rows" using assms(2,4) by linarith
  then have "i div cols < rows" using assms(3) by (simp add: mult_less_cancel_left)
  then show "i div cols \<le> rows - 1" by simp
qed

subsection \<open>Drawing order\<close>

lemma putImageData_covered:
  "covers d q \<Longrightarrow> putImageData d surface q = putImageData d surface' q"
  by (cases d; cases q) (simp add: putImageData_def)

lemma putImageData_not_covered:
  "\<not> covers d q \<Longrightarrow> putImageData d surface q = surface q"
  by (cases d; cases q) (simp add: putImageData_def)

lemma fold_putImageData:
  "fold putImageData ds surface q =
     (if filter (\<lambda>d. covers d q) ds = [] then surface q
      else putImageData (last (filter (\<lambda>d. covers d q) ds)) surface q)"
proof (induction ds arbitrary: surface)
  case Nil
  show ?case by simp
next
  case (Cons d ds)
  show ?case
  proof (cases "filter (\<lambda>d. covers d q) ds = []")
    case True
    then show ?thesis
      by (simp add: Cons.IH putImageData_not_covered)
  next
    case False
    then have "last (filter (\<lambda>d. covers d q) ds) \<in> set (filter (\<lambda>d. covers d q) ds)"
      by (rule last_in_set)
    then have "covers (last (filter (\<lambda>d. covers d q) ds)) q" by simp
    then have "putImageData (last (filter (\<lambda>d. covers d q) ds)) (putImageData d surface) q =
        putImageData (last (filter (\<lambda>d. covers d q) ds)) surface q"
      by (rule putImageData_covered)
    then show ?thesis
      using False by (simp add: Cons.IH)
  qed
qed

lemma filter_permuted:
  assumes "mset ds = mset es" and "length (filter P es) \<le> 1"
  shows "filter P ds = filter P es"
proof -
  have m: "mset (filter P ds) = mset (filter P es)"
    using assms(1) by simp
  then have l: "length (filter P ds) = length (filter P es)"
    by (rule mset_eq_length)
  show ?thesis
  proof (cases "filter P es")
    case Nil
    then show ?thesis using l by simp
  next
    case (Cons e es')
    then have es: "filter P es = [e]" using assms(2) by simp
    then obtain d where "filter P ds = [d]"
      using l by (cases "filter P ds") simp_all
    then show ?thesis using m es by simp
  qed
qed

lemma filter_indexed_le_1:
  assumes "\<And>i j. i < n \<Longrightarrow> j < n \<Longrightarrow> P (f i) \<Longrightarrow> P (f j) \<Longrightarrow> i = j"
  shows "length (filter P (map f [0..<n])) \<le> 1"
proof -
  define ks where "ks = filter (P \<circ> f) [0..<n]"
  have eq: "filter P (map f [0..<n]) = map f ks"
    by (simp add: ks_def filter_map)
  have d: "distinct ks" by (simp add: ks_def)
  have same: "i = j" if "i \<in> set ks" "j \<in> set ks" for i j
    using that assms by (simp add: ks_def)
  have "length ks \<le> 1"
  proof (cases ks)
    case Nil
    then show ?thesis by simp
  next
    case (Cons k ks')
    have "ks' = []"
    proof (cases ks')
      case Nil
      then show ?thesis .
    next
      case (Cons k' ks'')
      with \<open>ks = k # ks'\<close> have "k \<noteq> k'" using d by simp
      moreover have "k = k'" using same [of k k'] \<open>ks = k # ks'\<close> Cons by simp
      ultimately show ?thesis by simp
    qed
    with Cons show ?thesis by simp
  qed
  then show ?thesis by (simp add: eq)
qed

subsection \<open>The adapter's frames\<close>

lemma extractFrames_image_size:
  assumes "extractFrames decode file = Inr out"
  shows "\<forall>f\<in>set out. img_width (imageData f) = width (dims f) \<and>
                       img_height (imageData f) = height (dims f)"
  using assms
  by (auto simp: extractFrames_def to_SpriteFrame_def split: sum.splits)

section \<open>Failure on empty input\<close>

text \<open>
  C5. \<open>generateSpritesheet\<close> fails with the error "No frames to process" exactly when the
  frame array is empty: on the empty array the outcome is that error, for every platform
  and every config, and so no result record is produced; on a non-empty array the outcome
  is never that error.
\<close>

theorem C5_empty_input_error:
  "(frames = [] \<longrightarrow>
      generateSpritesheet pf frames config = Inl No_frames_to_process \<and>
      (\<forall>r. generateSpritesheet pf frames config \<noteq> Inr r)) \<and>
   (frames \<noteq> [] \<longrightarrow> generateSpritesheet pf frames config \<noteq> Inl No_frames_to_process)"
  by (simp add: generateSpritesheet_def Let_def split: prod.splits)

theorem C5_empty_input_error_witness:
  "generateSpritesheet example_platform [] grid_2_config = Inl No_frames_to_process \<and>
   generateSpritesheet example_platform four_frames grid_2_config \<noteq> Inl No_frames_to_process"
  using C5_empty_input_error [of "[]" example_platform grid_2_config]
    C5_empty_input_error [of four_frames example_platform grid_2_config]
  by (simp add: four_frames_def)

section \<open>Canvas size\<close>

text \<open>
  C1. For every non-empty frame array (on a platform that supplies the drawing context)
  \<open>generateSpritesheet\<close> returns a result whose width is
  \<open>cols * cellWidth + (cols - 1) * padding\<close> and whose height is
  \<open>rows * cellHeight + (rows - 1) * padding\<close>, where \<open>(cols, rows)\<close> is the resolved grid shape
  and \<open>cellWidth\<close>, \<open>cellHeight\<close> are the largest frame width and the largest frame height.
  Padding only separates cells: with one column the width is exactly \<open>cellWidth\<close>, with one
  row the height is exactly \<open>cellHeight\<close>.
\<close>

theorem C1_canvas_dimensions:
  assumes "frames \<noteq> []" and "\<And>c. getContext pf c"
  shows "\<exists>r. generateSpritesheet pf frames config = Inr r \<and>
     (case resolve_grid (int (length frames)) config of (cols, rows) \<Rightarrow>
        (let cellWidth = Max ((\<lambda>f. width (dims f)) ` set frames);
             cellHeight = Max ((\<lambda>f. height (dims f)) ` set frames)
         in sheet_width r = cols * cellWidth + (cols - 1) * padding config \<and>
            sheet_height r = rows * cellHeight + (rows - 1) * padding config \<and>
            (cols = 1 \<longrightarrow> sheet_width r = cellWidth) \<and>
            (rows = 1 \<longrightarrow> sheet_height r = cellHeight)))"
proof -
  obtain cols rows where grid: "resolve_grid (int (length frames)) config = (cols, rows)"
    by force
  from generateSpritesheet_Inr [OF assms grid] obtain r
    where "generateSpritesheet pf frames config = Inr r"
      and "sheet_width r = cols * Max ((\<lambda>f. width (dims f)) ` set frames) + (cols - 1) * padding config"
      and "sheet_height r = rows * Max ((\<lambda>f. height (dims f)) ` set frames) + (rows - 1) * padding config"
    by force
  then show ?thesis by (simp add: grid Let_def)
qed

theorem C1_canvas_dimensions_witness:
  "\<exists>r. generateSpritesheet example_platform four_frames grid_2_config = Inr r \<and>
     resolve_grid 4 grid_2_config = (2, 2) \<and> sheet_width r = 22 \<and> sheet_height r = 22"
  using C1_canvas_dimensions [of four_frames example_platform grid_2_config]
  by (simp add: four_frames_def grid_2_config_def example_platform_def sized_frame_def
      resolve_grid_def Math_ceil_div_def Let_def)

section \<open>Placements\<close>

text \<open>
  C2. For every non-empty frame array and every config the result holds exactly one
  placement per frame, in input order, and the placement at position \<open>i\<close> is the record
  of the cell origin of position \<open>i\<close>, the width and height of frame \<open>i\<close> itself (not the
  cell size) and the delay of frame \<open>i\<close>.
\<close>

theorem C2_one_placement_per_frame:
  assumes "frames \<noteq> []" and "\<And>c. getContext pf c"
  shows "\<exists>r. generateSpritesheet pf frames config = Inr r \<and>
     length (sheet_frames r) = length frames \<and>
     (\<forall>i<length frames.
        sheet_frames r ! i =
          (let cols = fst (resolve_grid (int (length frames)) config);
               cellWidth = Max ((\<lambda>f. width (dims f)) ` set frames);
               cellHeight = Max ((\<lambda>f. height (dims f)) ` set frames);
               (cellX, cellY) = cell_origin cols cellWidth cellHeight (padding config) (int i)
           in \<lparr> at_x = cellX, at_y = cellY,
                at_w = width (dims (frames ! i)), at_h = height (dims (frames ! i)),
                duration = delay (frames ! i) \<rparr>))"
proof -
  obtain cols rows where grid: "resolve_grid (int (length frames)) config = (cols, rows)"
    by force
  from generateSpritesheet_Inr [OF assms grid] obtain r
    where "generateSpritesheet pf frames config = Inr r"
      and "sheet_frames r = map (\<lambda>j.
             \<lparr> at_x = fst (cell_origin cols (Max ((\<lambda>f. width (dims f)) ` set frames))
                           (Max ((\<lambda>f. height (dims f)) ` set frames)) (padding config) (int j)),
               at_y = snd (cell_origin cols (Max ((\<lambda>f. width (dims f)) ` set frames))
                           (Max ((\<lambda>f. height (dims f)) ` set frames)) (padding config) (int j)),
               at_w = width (dims (frames ! j)), at_h = height (dims (frames ! j)),
               duration = delay (frames ! j) \<rparr>) [0..<length frames]"
    by force
  then show ?thesis
    by (simp add: grid Let_def split_beta)
qed

theorem C2_one_placement_per_frame_witness:
  "\<exists>r. generateSpritesheet example_platform four_frames grid_2_config = Inr r \<and>
     sheet_frames r =
       [\<lparr> at_x = 0, at_y = 0, at_w = 8, at_h = 8, duration = 40 \<rparr>,
        \<lparr> at_x = 12, at_y = 0, at_w = 10, at_h = 6, duration = 50 \<rparr>,
        \<lparr> at_x = 0, at_y = 12, at_w = 6, at_h = 10, duration = 60 \<rparr>,
        \<lparr> at_x = 12, at_y = 12, at_w = 10, at_h = 10, duration = 70 \<rparr>]"
proof -
  from C2_one_placement_per_frame [of four_frames example_platform grid_2_config]
  obtain r where r: "generateSpritesheet example_platform four_frames grid_2_config = Inr r"
    and len: "length (sheet_frames r) = 4"
    and nth: "\<forall>i<4. sheet_frames r ! i =
          (let cols = fst (resolve_grid 4 grid_2_config);
               cellWidth = Max ((\<lambda>f. width (dims f)) ` set four_frames);
               cellHeight = Max ((\<lambda>f. height (dims f)) ` set four_frames);
               (cellX, cellY) = cell_origin cols cellWidth cellHeight (padding grid_2_config) (int i)
           in \<lparr> at_x = cellX, at_y = cellY,
                at_w = width (dims (four_frames ! i)), at_h = height (dims (four_frames ! i)),
                duration = delay (four_frames ! i) \<rparr>)"
    by (auto simp: four_frames_def example_platform_def)
  have l: "sheet_frames r =
      [sheet_frames r ! 0, sheet_frames r ! 1, sheet_frames r ! 2, sheet_frames r ! 3]"
    using len by (auto simp: list_eq_iff_nth_eq less_Suc_eq eval_nat_numeral)
  have vals:
    "sheet_frames r ! 0 = \<lparr> at_x = 0, at_y = 0, at_w = 8, at_h = 8, duration = 40 \<rparr>"
    "sheet_frames r ! 1 = \<lparr> at_x = 12, at_y = 0, at_w = 10, at_h = 6, duration = 50 \<rparr>"
    "sheet_frames r ! 2 = \<lparr> at_x = 0, at_y = 12, at_w = 6, at_h = 10, duration = 60 \<rparr>"
    "sheet_frames r ! 3 = \<lparr> at_x = 12, at_y = 12, at_w = 10, at_h = 10, duration = 70 \<rparr>"
    using nth
    by (simp_all add: resolve_grid_def Math_ceil_div_def cell_origin_def js_rem_def
        Math_floor_div_def grid_2_config_def four_frames_def sized_frame_def Let_def)
  show ?thesis
  proof (intro exI conjI)
    show "generateSpritesheet example_platform four_frames grid_2_config = Inr r" by (rule r)
    show "sheet_frames r =
       [\<lparr> at_x = 0, at_y = 0, at_w = 8, at_h = 8, duration = 40 \<rparr>,
        \<lparr> at_x = 12, at_y = 0, at_w = 10, at_h = 6, duration = 50 \<rparr>,
        \<lparr> at_x = 0, at_y = 12, at_w = 6, at_h = 10, duration = 60 \<rparr>,
        \<lparr> at_x = 12, at_y = 12, at_w = 10, at_h = 10, duration = 70 \<rparr>]"
      by (subst l) (simp only: vals)
  qed
qed

section \<open>Grid shape\<close>

text \<open>
  C3. For a non-empty frame array of \<open>frameCount\<close> frames the grid shape is
  \<open>(frameCount, 1)\<close> in horizontal mode, \<open>(1, frameCount)\<close> in vertical mode, and in grid
  mode \<open>cols\<close> is the column count of the config when one is given and
  \<open>ceil(sqrt(frameCount))\<close> otherwise, with \<open>rows = ceil(frameCount / cols)\<close>. The ceiling and
  the square root are the real-valued ones. A column count that is given is never 0 (the
  source's \<open>config.columns || ...\<close> takes a 0 for an absent value).
\<close>

theorem C3_grid_shape:
  assumes "frames \<noteq> []" and "columns config \<noteq> Some 0"
  shows "resolve_grid (int (length frames)) config =
     (case layout config of
        Horizontal \<Rightarrow> (int (length frames), 1)
      | Vertical \<Rightarrow> (1, int (length frames))
      | Grid \<Rightarrow>
          (let cols = (case columns config of Some c \<Rightarrow> c
                       | None \<Rightarrow> \<lceil>sqrt (real (length frames))\<rceil>)
           in (cols, \<lceil>real (length frames) / real_of_int cols\<rceil>)))"
proof (cases "layout config")
  case Grid
  have sq: "Math_ceil_sqrt (int (length frames)) = \<lceil>sqrt (real (length frames))\<rceil>"
    using Math_ceil_sqrt_real [of "int (length frames)"] by simp
  have dv: "Math_ceil_div (int (length frames)) c = \<lceil>real (length frames) / real_of_int c\<rceil>" for c
    using Math_ceil_div_real [of "int (length frames)" c] by simp
  show ?thesis
    using assms(2) Grid
    by (simp add: resolve_grid_def sq dv Let_def split: option.splits)
qed (simp_all add: resolve_grid_def)

theorem C3_grid_shape_witness:
  "resolve_grid (int (length four_frames)) grid_2_config = (2, 2) \<and>
   resolve_grid (int (length four_frames)) (grid_2_config\<lparr>layout := Horizontal\<rparr>) = (4, 1) \<and>
   resolve_grid (int (length four_frames)) (grid_2_config\<lparr>layout := Vertical\<rparr>) = (1, 4) \<and>
   (\<lceil>sqrt (real (length three_frames))\<rceil>,
    \<lceil>real (length three_frames) / real_of_int \<lceil>sqrt (real (length three_frames))\<rceil>\<rceil>) = (2, 2)"
proof -
  have "resolve_grid 3 (grid_2_config\<lparr>columns := None\<rparr>) = (2, 2)"
    by (simp add: resolve_grid_def grid_2_config_def Math_ceil_sqrt_def Math_ceil_div_def
        sqrt_up.simps [of _ 3])
  then show ?thesis
  using C3_grid_shape [of four_frames grid_2_config]
    C3_grid_shape [of four_frames "grid_2_config\<lparr>layout := Horizontal\<rparr>"]
    C3_grid_shape [of four_frames "grid_2_config\<lparr>layout := Vertical\<rparr>"]
    C3_grid_shape [of three_frames "grid_2_config\<lparr>columns := None\<rparr>"]
  by (simp add: four_frames_def three_frames_def grid_2_config_def Let_def)
qed

text \<open>
  C4. For the frame at position \<open>i\<close> of a non-empty frame array, with
  \<open>col = i mod cols\<close> and \<open>row = i div cols\<close>, the placement has
  \<open>x = col * (cellWidth + padding)\<close> and \<open>y = row * (cellHeight + padding)\<close>.
\<close>

theorem C4_placement_coordinates:
  assumes "frames \<noteq> []" and "\<And>c. getContext pf c" and "valid_columns config"
  shows "\<exists>r. generateSpritesheet pf frames config = Inr r \<and>
     (\<forall>i<length frames.
        (let cols = fst (resolve_grid (int (length frames)) config);
             cellWidth = Max ((\<lambda>f. width (dims f)) ` set frames);
             cellHeight = Max ((\<lambda>f. height (dims f)) ` set frames);
             col = int i mod cols;
             row = int i div cols
         in at_x (sheet_frames r ! i) = col * (cellWidth + padding config) \<and>
            at_y (sheet_frames r ! i) = row * (cellHeight + padding config)))"
proof -
  obtain cols rows where grid: "resolve_grid (int (length frames)) config = (cols, rows)"
    by force
  have cols: "0 < cols"
    using resolve_grid_bounds(1) [OF assms(3) _ grid] assms(1)
    by (cases frames) simp_all
  from generateSpritesheet_Inr [OF assms(1,2) grid] obtain r
    where "generateSpritesheet pf frames config = Inr r"
      and "sheet_frames r = map (\<lambda>j.
             \<lparr> at_x = fst (cell_origin cols (Max ((\<lambda>f. width (dims f)) ` set frames))
                           (Max ((\<lambda>f. height (dims f)) ` set frames)) (padding config) (int j)),
               at_y = snd (cell_origin cols (Max ((\<lambda>f. width (dims f)) ` set frames))
                           (Max ((\<lambda>f. height (dims f)) ` set frames)) (padding config) (int j)),
               at_w = width (dims (frames ! j)), at_h = height (dims (frames ! j)),
               duration = delay (frames ! j) \<rparr>) [0..<length frames]"
    by force
  then show ?thesis
    using cols
    by (simp add: grid Let_def cell_origin_def js_rem_pos Math_floor_div_def)
qed

theorem C4_placement_coordinates_witness:
  "\<exists>r. generateSpritesheet example_platform four_frames grid_2_config = Inr r \<and>
     at_x (sheet_frames r ! 3) = 12 \<and> at_y (sheet_frames r ! 3) = 12 \<and>
     at_x (sheet_frames r ! 2) = 0 \<and> at_y (sheet_frames r ! 2) = 12"
proof -
  from C4_placement_coordinates [of four_frames example_platform grid_2_config]
  obtain r where r: "generateSpritesheet example_platform four_frames grid_2_config = Inr r"
    and nth: "\<forall>i<4.
        (let cols = fst (resolve_grid 4 grid_2_config);
             cellWidth = Max ((\<lambda>f. width (dims f)) ` set four_frames);
             cellHeight = Max ((\<lambda>f. height (dims f)) ` set four_frames);
             col = int i mod cols;
             row = int i div cols
         in at_x (sheet_frames r ! i) = col * (cellWidth + padding grid_2_config) \<and>
            at_y (sheet_frames r ! i) = row * (cellHeight + padding grid_2_config))"
    by (auto simp: four_frames_def example_platform_def valid_columns_def grid_2_config_def)
  have "at_x (sheet_frames r ! 3) = 12 \<and> at_y (sheet_frames r ! 3) = 12 \<and>
     at_x (sheet_frames r ! 2) = 0 \<and> at_y (sheet_frames r ! 2) = 12"
    using nth
    by (simp add: resolve_grid_def Math_ceil_div_def grid_2_config_def four_frames_def
        sized_frame_def Let_def)
  with r show ?thesis by blast
qed

section \<open>A single frame\<close>

text \<open>
  One frame of 10 by 10 pixels in grid mode with five columns and no padding:
  \<open>preferredCols\<close> is 5 and \<open>rows\<close> is \<open>Math.ceil(1 / 5) = 1\<close>, so the shape is five columns by
  one row, not one by one, and the sheet is \<open>5 * 10 + 4 * 0 = 50\<close> pixels wide.
\<close>

theorem C7_counterexample:
  "resolve_grid (int (length [sized_frame 0 10 10 100]))
     \<lparr> layout = Grid, padding = 0, columns = Some 5 \<rparr> \<noteq> (1, 1) \<and>
   map_sum id sheet_width
     (generateSpritesheet example_platform [sized_frame 0 10 10 100]
        \<lparr> layout = Grid, padding = 0, columns = Some 5 \<rparr>) = Inr 50"
  by (simp add: resolve_grid_def generateSpritesheet_def Math_ceil_div_def sized_frame_def
      example_platform_def split_beta Let_def)

text \<open>
  C7 (amended). For a single frame the grid shape is one by one in horizontal and in
  vertical mode, for every column count (present or absent, valid or not), and in grid
  mode when no column count is given; in grid mode with a column count \<open>c\<close> of at least 1
  the shape is \<open>c\<close> columns by one row. Only grid mode needs the column count to be valid.
\<close>

theorem C7_single_frame_grid_shape:
  assumes "length frames = 1" and "layout config = Grid \<Longrightarrow> valid_columns config"
  shows "resolve_grid (int (length frames)) config =
     (if layout config = Grid
      then (case columns config of None \<Rightarrow> (1, 1) | Some c \<Rightarrow> (c, 1))
      else (1, 1))"
proof (cases "layout config")
  case Horizontal
  then show ?thesis using assms(1) by (simp add: resolve_grid_def)
next
  case Vertical
  then show ?thesis using assms(1) by (simp add: resolve_grid_def)
next
  case Grid
  have sq: "Math_ceil_sqrt 1 = 1"
    by (simp add: Math_ceil_sqrt_def sqrt_up.simps [of 0] sqrt_up.simps [of "Suc 0"])
  have dv: "Math_ceil_div 1 c = 1" if "1 \<le> c" for c
  proof -
    have "(- 1) div c = - 1" using that by (simp add: zdiv_eq_0_iff div_eq_minus1)
    then show ?thesis by (simp add: Math_ceil_div_def)
  qed
  have "valid_columns config" using assms(2) Grid by simp
  then show ?thesis
    using assms(1) Grid
    by (auto simp: resolve_grid_def valid_columns_def sq dv Let_def split: option.splits)
qed

theorem C7_single_frame_grid_shape_witness:
  "resolve_grid (int (length [sized_frame 0 10 10 100]))
     \<lparr> layout = Grid, padding = 0, columns = Some 5 \<rparr> = (5, 1) \<and>
   resolve_grid (int (length [sized_frame 0 10 10 100]))
     \<lparr> layout = Grid, padding = 0, columns = None \<rparr> = (1, 1) \<and>
   resolve_grid (int (length [sized_frame 0 10 10 100]))
     \<lparr> layout = Horizontal, padding = 0, columns = Some 5 \<rparr> = (1, 1) \<and>
   resolve_grid (int (length [sized_frame 0 10 10 100]))
     \<lparr> layout = Horizontal, padding = 0, columns = Some 0 \<rparr> = (1, 1) \<and>
   resolve_grid (int (length [sized_frame 0 10 10 100]))
     \<lparr> layout = Vertical, padding = 0, columns = Some (- 3) \<rparr> = (1, 1)"
  using C7_single_frame_grid_shape [of "[sized_frame 0 10 10 100]"
      "\<lparr> layout = Grid, padding = 0, columns = Some 5 \<rparr>"]
    C7_single_frame_grid_shape [of "[sized_frame 0 10 10 100]"
      "\<lparr> layout = Grid, padding = 0, columns = None \<rparr>"]
    C7_single_frame_grid_shape [of "[sized_frame 0 10 10 100]"
      "\<lparr> layout = Horizontal, padding = 0, columns = Some 5 \<rparr>"]
    C7_single_frame_grid_shape [of "[sized_frame 0 10 10 100]"
      "\<lparr> layout = Horizontal, padding = 0, columns = Some 0 \<rparr>"]
    C7_single_frame_grid_shape [of "[sized_frame 0 10 10 100]"
      "\<lparr> layout = Vertical, padding = 0, columns = Some (- 3) \<rparr>"]
  by (simp add: valid_columns_def)

section \<open>The column count outside grid mode\<close>

text \<open>
  C8. In horizontal and in vertical mode the column count has no influence: for every
  non-empty frame array, every padding and any two values of \<open>columns\<close> (present or absent),
  \<open>generateSpritesheet\<close> returns the same result, in particular the same width, height and
  placements.
\<close>

theorem C8_columns_ignored_outside_grid:
  assumes "frames \<noteq> []" and "\<And>c. getContext pf c" and "layout config \<noteq> Grid"
  shows "\<exists>r. generateSpritesheet pf frames (config\<lparr>columns := c1\<rparr>) = Inr r \<and>
     generateSpritesheet pf frames (config\<lparr>columns := c2\<rparr>) = Inr r"
proof -
  have same: "generateSpritesheet pf frames (config\<lparr>columns := c1\<rparr>) =
      generateSpritesheet pf frames (config\<lparr>columns := c2\<rparr>)"
    using assms(3)
    by (cases "layout config") (simp_all add: generateSpritesheet_def resolve_grid_def)
  obtain cols rows
    where "resolve_grid (int (length frames)) (config\<lparr>columns := c1\<rparr>) = (cols, rows)"
    by force
  from generateSpritesheet_Inr [OF assms(1,2) this] obtain r
    where "generateSpritesheet pf frames (config\<lparr>columns := c1\<rparr>) = Inr r"
    by blast
  with same show ?thesis by metis
qed

theorem C8_columns_ignored_outside_grid_witness:
  "\<exists>r. generateSpritesheet example_platform four_frames
         \<lparr> layout = Horizontal, padding = 2, columns = Some 2 \<rparr> = Inr r \<and>
       generateSpritesheet example_platform four_frames
         \<lparr> layout = Horizontal, padding = 2, columns = Some 7 \<rparr> = Inr r \<and>
       sheet_width r = 46 \<and> sheet_height r = 10"
proof -
  from C8_columns_ignored_outside_grid [of four_frames example_platform
      "\<lparr> layout = Horizontal, padding = 2, columns = None \<rparr>" "Some 2" "Some 7"]
  obtain r where r: "generateSpritesheet example_platform four_frames
         \<lparr> layout = Horizontal, padding = 2, columns = Some 2 \<rparr> = Inr r"
       "generateSpritesheet example_platform four_frames
         \<lparr> layout = Horizontal, padding = 2, columns = Some 7 \<rparr> = Inr r"
    by (auto simp: four_frames_def example_platform_def)
  have "sheet_width r = 46 \<and> sheet_height r = 10"
    using r(1)
    by (auto simp: generateSpritesheet_def resolve_grid_def four_frames_def sized_frame_def
        example_platform_def Let_def split_beta)
  with r show ?thesis by blast
qed

section \<open>The frame adapter\<close>

text \<open>
  C9. Whenever the decoder delivers a frame sequence, \<open>extractFrames\<close> returns one
  \<open>SpriteFrame\<close> per decoded frame, in decode order; the frame at position \<open>i\<close> has id
  \<open>i\<close>, the decoder's width, height, top and left offsets and delay, and its image data is
  the decoder's patch, byte for byte, with the same width and height.
\<close>

theorem C9_extractFrames:
  assumes "decode file = Inr decoded"
  shows "\<exists>out. extractFrames decode file = Inr out \<and>
     length out = length decoded \<and>
     (\<forall>i<length decoded.
        frame_id (out ! i) = int i \<and>
        width (dims (out ! i)) = width (parsed_dims (decoded ! i)) \<and>
        height (dims (out ! i)) = height (parsed_dims (decoded ! i)) \<and>
        dims_top (dims (out ! i)) = dims_top (parsed_dims (decoded ! i)) \<and>
        dims_left (dims (out ! i)) = dims_left (parsed_dims (decoded ! i)) \<and>
        delay (out ! i) = parsed_delay (decoded ! i) \<and>
        img_data (imageData (out ! i)) = patch (decoded ! i) \<and>
        img_width (imageData (out ! i)) = width (parsed_dims (decoded ! i)) \<and>
        img_height (imageData (out ! i)) = height (parsed_dims (decoded ! i)))"
  using assms
  by (simp add: extractFrames_def to_SpriteFrame_def nth_enumerate_eq)

theorem C9_extractFrames_witness:
  "extractFrames (\<lambda>_. Inr
       [\<lparr> patch = [1, 2, 3, 4], parsed_dims = \<lparr> width = 1, height = 1, dims_top = 5, dims_left = 6 \<rparr>,
          parsed_delay = 40 \<rparr>,
        \<lparr> patch = [9, 8, 7, 6, 5, 4, 3, 2],
          parsed_dims = \<lparr> width = 2, height = 1, dims_top = 0, dims_left = 3 \<rparr>,
          parsed_delay = 70 \<rparr>] :: unit + ParsedFrame list) () =
     Inr [\<lparr> frame_id = 0,
            imageData = \<lparr> img_data = [1, 2, 3, 4], img_width = 1, img_height = 1 \<rparr>,
            dims = \<lparr> width = 1, height = 1, dims_top = 5, dims_left = 6 \<rparr>, delay = 40 \<rparr>,
          \<lparr> frame_id = 1,
            imageData = \<lparr> img_data = [9, 8, 7, 6, 5, 4, 3, 2], img_width = 2, img_height = 1 \<rparr>,
            dims = \<lparr> width = 2, height = 1, dims_top = 0, dims_left = 3 \<rparr>, delay = 70 \<rparr>]"
  using C9_extractFrames [of "\<lambda>_. Inr
       [\<lparr> patch = [1, 2, 3, 4], parsed_dims = \<lparr> width = 1, height = 1, dims_top = 5, dims_left = 6 \<rparr>,
          parsed_delay = 40 \<rparr>,
        \<lparr> patch = [9, 8, 7, 6, 5, 4, 3, 2],
          parsed_dims = \<lparr> width = 2, height = 1, dims_top = 0, dims_left = 3 \<rparr>,
          parsed_delay = 70 \<rparr>] :: unit + ParsedFrame list" "()"]
  by (simp add: extractFrames_def to_SpriteFrame_def enumerate_eq_zip upt_conv_Cons)

section \<open>Cells do not overlap\<close>

text \<open>
  C6. For every non-empty frame array, every layout mode and every padding that is not
  negative, the cells of two different placements (the rectangles of \<open>cellWidth\<close> by
  \<open>cellHeight\<close> pixels at the placements' origins) have no pixel in common. The blob is the
  encoding of the canvas on which frame \<open>i\<close> was drawn at the origin of placement \<open>i\<close>, and
  when no frame image is larger than the frame's stated size (as for every frame that
  \<open>extractFrames\<close> produces), drawing the frames in any other order gives the same composite.
\<close>

theorem C6_cells_disjoint:
  assumes "frames \<noteq> []" and "\<And>c. getContext pf c" and "0 \<le> padding config"
  shows "\<exists>r. generateSpritesheet pf frames config = Inr r \<and>
     (let cellWidth = Max ((\<lambda>f. width (dims f)) ` set frames);
          cellHeight = Max ((\<lambda>f. height (dims f)) ` set frames);
          canvas = \<lparr> canvas_width = sheet_width r, canvas_height = sheet_height r,
                     draws = map2 (\<lambda>f p. (imageData f, at_x p, at_y p)) frames (sheet_frames r) \<rparr>
      in blob r = convertToBlob pf canvas \<and>
         (\<forall>i<length frames. \<forall>j<length frames. i \<noteq> j \<longrightarrow>
            cell_pixels cellWidth cellHeight (sheet_frames r ! i) \<inter>
            cell_pixels cellWidth cellHeight (sheet_frames r ! j) = {}) \<and>
         ((\<forall>f\<in>set frames. img_width (imageData f) \<le> width (dims f) \<and>
                           img_height (imageData f) \<le> height (dims f)) \<longrightarrow>
          (\<forall>ds. mset ds = mset (draws canvas) \<longrightarrow>
             composite (canvas\<lparr>draws := ds\<rparr>) = composite canvas)))"
proof -
  define mw where "mw = Max ((\<lambda>f. width (dims f)) ` set frames)"
  define mh where "mh = Max ((\<lambda>f. height (dims f)) ` set frames)"
  define p where "p = padding config"
  obtain cols rows where grid: "resolve_grid (int (length frames)) config = (cols, rows)"
    by force
  have cols: "cols \<noteq> 0"
    using resolve_grid_cols_nonzero [of "int (length frames)" config] assms(1) grid
    by (cases frames) simp_all
  have p0: "0 \<le> p" using assms(3) by (simp add: p_def)
  define f where "f = (\<lambda>j. (imageData (frames ! j), cell_origin cols mw mh p (int j)))"
  define g where "g = (\<lambda>j. \<lparr> at_x = fst (cell_origin cols mw mh p (int j)),
               at_y = snd (cell_origin cols mw mh p (int j)),
               at_w = width (dims (frames ! j)), at_h = height (dims (frames ! j)),
               duration = delay (frames ! j) \<rparr>)"
  define canvas where "canvas r = \<lparr> canvas_width = sheet_width r, canvas_height = sheet_height r,
         draws = map f [0..<length frames] \<rparr>" for r :: "('a, 'b) SpriteSheetResult"
  from generateSpritesheet_Inr [OF assms(1,2) grid] obtain r
    where r: "generateSpritesheet pf frames config = Inr r"
      and b: "blob r = convertToBlob pf (canvas r)"
      and fr: "sheet_frames r = map g [0..<length frames]"
    unfolding canvas_def f_def g_def mw_def mh_def p_def by blast
  have "map2 (\<lambda>f p. (imageData f, at_x p, at_y p)) frames (sheet_frames r) = map f [0..<length frames]"
    by (rule nth_equalityI) (simp_all add: fr f_def g_def)
  then have cv: "\<lparr> canvas_width = sheet_width r, canvas_height = sheet_height r,
       draws = map2 (\<lambda>f p. (imageData f, at_x p, at_y p)) frames (sheet_frames r) \<rparr> = canvas r"
    by (simp add: canvas_def)
  have dis: "cell_pixels mw mh (sheet_frames r ! i) \<inter> cell_pixels mw mh (sheet_frames r ! j) = {}"
    if "i < length frames" "j < length frames" "i \<noteq> j" for i j
    using cells_disjoint [of "int i" "int j" cols p mw mh] that cols p0
    by (simp add: fr g_def cell_pixels_def)
  have order: "composite (canvas r\<lparr>draws := ds\<rparr>) = composite (canvas r)"
    if fit: "\<forall>f\<in>set frames. img_width (imageData f) \<le> width (dims f) \<and>
                               img_height (imageData f) \<le> height (dims f)"
      and ds: "mset ds = mset (draws (canvas r))" for ds
  proof -
    have one: "length (filter (\<lambda>d. covers d q) (map f [0..<length frames])) \<le> 1" for q
    proof (rule filter_indexed_le_1)
      fix i j
      assume i: "i < length frames" and j: "j < length frames"
        and ci: "covers (f i) q" and cj: "covers (f j) q"
      obtain a b where q: "q = (a, b)" by (cases q)
      have inside: "fst (cell_origin cols mw mh p (int k)) \<le> a \<and>
          a < fst (cell_origin cols mw mh p (int k)) + mw \<and>
          snd (cell_origin cols mw mh p (int k)) \<le> b \<and>
          b < snd (cell_origin cols mw mh p (int k)) + mh"
        if k: "k < length frames" and c: "covers (f k) q" for k
      proof -
        have mem: "frames ! k \<in> set frames" using k by simp
        have "width (dims (frames ! k)) \<le> mw" "height (dims (frames ! k)) \<le> mh"
          unfolding mw_def mh_def using mem by simp_all
        moreover have "img_width (imageData (frames ! k)) \<le> width (dims (frames ! k))"
          "img_height (imageData (frames ! k)) \<le> height (dims (frames ! k))"
          using fit mem by blast+
        ultimately show ?thesis
          using c by (cases "cell_origin cols mw mh p (int k)") (simp add: f_def covers_def q)
      qed
      have ii: "0 \<le> int i" and jj: "0 \<le> int j" by simp_all
      note ini = inside [OF i ci] and inj = inside [OF j cj]
      have "int i = int j"
        by (rule shared_pixel_same_index [OF ii jj cols p0, of mw mh a b]) (use ini inj in blast)+
      then show "i = j" by simp
    qed
    have "filter (\<lambda>d. covers d q) ds = filter (\<lambda>d. covers d q) (map f [0..<length frames])" for q
      using ds one [of q] by (simp add: canvas_def filter_permuted)
    then have "fold putImageData ds s q = fold putImageData (map f [0..<length frames]) s q" for s q
      by (simp only: fold_putImageData)
    then show ?thesis
      by (simp add: composite_def canvas_def fun_eq_iff)
  qed
  have body: "blob r = convertToBlob pf (canvas r) \<and>
         (\<forall>i<length frames. \<forall>j<length frames. i \<noteq> j \<longrightarrow>
            cell_pixels mw mh (sheet_frames r ! i) \<inter> cell_pixels mw mh (sheet_frames r ! j) = {}) \<and>
         ((\<forall>f\<in>set frames. img_width (imageData f) \<le> width (dims f) \<and>
                           img_height (imageData f) \<le> height (dims f)) \<longrightarrow>
          (\<forall>ds. mset ds = mset (draws (canvas r)) \<longrightarrow>
             composite (canvas r\<lparr>draws := ds\<rparr>) = composite (canvas r)))"
  proof (intro conjI allI impI)
    show "blob r = convertToBlob pf (canvas r)" by (rule b)
  next
    fix i j assume "i < length frames" "j < length frames" "i \<noteq> j"
    then show "cell_pixels mw mh (sheet_frames r ! i) \<inter> cell_pixels mw mh (sheet_frames r ! j) = {}"
      by (rule dis)
  next
    fix ds
    assume "\<forall>f\<in>set frames. img_width (imageData f) \<le> width (dims f) \<and>
                           img_height (imageData f) \<le> height (dims f)"
      and "mset ds = mset (draws (canvas r))"
    then show "composite (canvas r\<lparr>draws := ds\<rparr>) = composite (canvas r)"
      by (rule order)
  qed
  show ?thesis
  proof (rule exI [of _ r], rule conjI [OF r])
    show "let cellWidth = Max ((\<lambda>f. width (dims f)) ` set frames);
          cellHeight = Max ((\<lambda>f. height (dims f)) ` set frames);
          canvas = \<lparr> canvas_width = sheet_width r, canvas_height = sheet_height r,
                     draws = map2 (\<lambda>f p. (imageData f, at_x p, at_y p)) frames (sheet_frames r) \<rparr>
      in blob r = convertToBlob pf canvas \<and>
         (\<forall>i<length frames. \<forall>j<length frames. i \<noteq> j \<longrightarrow>
            cell_pixels cellWidth cellHeight (sheet_frames r ! i) \<inter>
            cell_pixels cellWidth cellHeight (sheet_frames r ! j) = {}) \<and>
         ((\<forall>f\<in>set frames. img_width (imageData f) \<le> width (dims f) \<and>
                           img_height (imageData f) \<le> height (dims f)) \<longrightarrow>
          (\<forall>ds. mset ds = mset (draws canvas) \<longrightarrow>
             composite (canvas\<lparr>draws := ds\<rparr>) = composite canvas))"
      unfolding Let_def cv using body unfolding mw_def mh_def .
  qed
qed

theorem C6_cells_disjoint_witness:
  "\<exists>r. generateSpritesheet example_platform four_frames grid_2_config = Inr r \<and>
     cell_pixels 10 10 (sheet_frames r ! 0) \<inter> cell_pixels 10 10 (sheet_frames r ! 1) = {} \<and>
     cell_pixels 10 10 (sheet_frames r ! 1) \<inter> cell_pixels 10 10 (sheet_frames r ! 3) = {} \<and>
     length (draws (blob r)) = 4 \<and>
     composite (blob r\<lparr>draws := rev (draws (blob r))\<rparr>) = composite (blob r)"
proof -
  have fit: "\<forall>f\<in>set four_frames. img_width (imageData f) \<le> width (dims f) \<and>
                               img_height (imageData f) \<le> height (dims f)"
    by (simp add: four_frames_def sized_frame_def)
  have cw: "Max ((\<lambda>f. width (dims f)) ` set four_frames) = 10"
    and ch: "Max ((\<lambda>f. height (dims f)) ` set four_frames) = 10"
    by (simp_all add: four_frames_def sized_frame_def)
  have len: "length four_frames = 4" by (simp add: four_frames_def)
  have hyp: "four_frames \<noteq> []" "\<And>c. getContext example_platform c" "0 \<le> padding grid_2_config"
    by (simp_all add: four_frames_def example_platform_def grid_2_config_def)
  have id: "convertToBlob example_platform c = c" for c
    by (simp add: example_platform_def)
  from C6_cells_disjoint [OF hyp, unfolded Let_def cw ch id len] obtain r
    where r: "generateSpritesheet example_platform four_frames grid_2_config = Inr r"
      and body: "blob r = \<lparr> canvas_width = sheet_width r, canvas_height = sheet_height r,
                     draws = map2 (\<lambda>f p. (imageData f, at_x p, at_y p)) four_frames (sheet_frames r) \<rparr> \<and>
         (\<forall>i<4. \<forall>j<4. i \<noteq> j \<longrightarrow>
            cell_pixels 10 10 (sheet_frames r ! i) \<inter> cell_pixels 10 10 (sheet_frames r ! j) = {}) \<and>
         ((\<forall>f\<in>set four_frames. img_width (imageData f) \<le> width (dims f) \<and>
                               img_height (imageData f) \<le> height (dims f)) \<longrightarrow>
          (\<forall>ds. mset ds = mset (draws \<lparr> canvas_width = sheet_width r, canvas_height = sheet_height r,
                     draws = map2 (\<lambda>f p. (imageData f, at_x p, at_y p)) four_frames (sheet_frames r) \<rparr>) \<longrightarrow>
             composite (\<lparr> canvas_width = sheet_width r, canvas_height = sheet_height r,
                     draws = map2 (\<lambda>f p. (imageData f, at_x p, at_y p)) four_frames (sheet_frames r) \<rparr>
                   \<lparr>draws := ds\<rparr>) =
             composite \<lparr> canvas_width = sheet_width r, canvas_height = sheet_height r,
                     draws = map2 (\<lambda>f p. (imageData f, at_x p, at_y p)) four_frames (sheet_frames r) \<rparr>))"
    by blast
  let ?canvas = "\<lparr> canvas_width = sheet_width r, canvas_height = sheet_height r,
                     draws = map2 (\<lambda>f p. (imageData f, at_x p, at_y p)) four_frames (sheet_frames r) \<rparr>"
  from body have b: "blob r = ?canvas" by (rule conjunct1)
  from body have dis: "\<forall>i<4. \<forall>j<4. i \<noteq> j \<longrightarrow>
            cell_pixels 10 10 (sheet_frames r ! i) \<inter> cell_pixels 10 10 (sheet_frames r ! j) = {}"
    by (rule conjunct1 [OF conjunct2])
  from body have order: "(\<forall>f\<in>set four_frames. img_width (imageData f) \<le> width (dims f) \<and>
                               img_height (imageData f) \<le> height (dims f)) \<longrightarrow>
          (\<forall>ds. mset ds = mset (draws ?canvas) \<longrightarrow>
             composite (?canvas\<lparr>draws := ds\<rparr>) = composite ?canvas)"
    by (rule conjunct2 [OF conjunct2])
  from order fit have "\<forall>ds. mset ds = mset (draws ?canvas) \<longrightarrow>
             composite (?canvas\<lparr>draws := ds\<rparr>) = composite ?canvas"
    by blast
  then have "\<forall>ds. mset ds = mset (draws (blob r)) \<longrightarrow>
             composite (blob r\<lparr>draws := ds\<rparr>) = composite (blob r)"
    unfolding b [symmetric] .
  then have rv: "composite (blob r\<lparr>draws := rev (draws (blob r))\<rparr>) = composite (blob r)"
    by simp
  from dis have d01: "cell_pixels 10 10 (sheet_frames r ! 0) \<inter> cell_pixels 10 10 (sheet_frames r ! 1) = {}"
    and d13: "cell_pixels 10 10 (sheet_frames r ! 1) \<inter> cell_pixels 10 10 (sheet_frames r ! 3) = {}"
    by simp_all
  have "length (sheet_frames r) = 4"
    using generateSpritesheet_length [OF r] by (simp add: len)
  then have n: "length (draws (blob r)) = 4"
    by (simp add: b len)
  from r d01 d13 n rv show ?thesis by blast
qed

section \<open>Placements lie within the canvas\<close>

text \<open>
  C10. For every non-empty array of frames with non-negative sizes, every padding that is
  not negative and every column count that is at least 1 when present, each placement
  rectangle lies within the canvas: \<open>0 \<le> x\<close>, \<open>0 \<le> y\<close>, \<open>x + w \<le> width\<close> and
  \<open>y + h \<le> height\<close>.
\<close>

theorem C10_placements_within_canvas:
  assumes "frames \<noteq> []" and "\<And>c. getContext pf c"
    and "valid_columns config" and "0 \<le> padding config"
    and "\<forall>f\<in>set frames. 0 \<le> width (dims f) \<and> 0 \<le> height (dims f)"
  shows "\<exists>r. generateSpritesheet pf frames config = Inr r \<and>
     (\<forall>i<length frames.
        0 \<le> at_x (sheet_frames r ! i) \<and>
        0 \<le> at_y (sheet_frames r ! i) \<and>
        at_x (sheet_frames r ! i) + at_w (sheet_frames r ! i) \<le> sheet_width r \<and>
        at_y (sheet_frames r ! i) + at_h (sheet_frames r ! i) \<le> sheet_height r)"
proof -
  define mw where "mw = Max ((\<lambda>f. width (dims f)) ` set frames)"
  define mh where "mh = Max ((\<lambda>f. height (dims f)) ` set frames)"
  define p where "p = padding config"
  obtain cols rows where grid: "resolve_grid (int (length frames)) config = (cols, rows)"
    by force
  have frameCount: "1 \<le> int (length frames)" using assms(1) by (cases frames) simp_all
  note shape = resolve_grid_bounds [OF assms(3) frameCount grid]
  from generateSpritesheet_Inr [OF assms(1,2) grid] obtain r
    where r: "generateSpritesheet pf frames config = Inr r"
      and w: "sheet_width r = cols * mw + (cols - 1) * p"
      and h: "sheet_height r = rows * mh + (rows - 1) * p"
      and fr: "sheet_frames r = map (\<lambda>j.
             \<lparr> at_x = fst (cell_origin cols mw mh p (int j)),
               at_y = snd (cell_origin cols mw mh p (int j)),
               at_w = width (dims (frames ! j)), at_h = height (dims (frames ! j)),
               duration = delay (frames ! j) \<rparr>) [0..<length frames]"
    unfolding mw_def mh_def p_def by force
  have "0 \<le> at_x (sheet_frames r ! i) \<and>
        0 \<le> at_y (sheet_frames r ! i) \<and>
        at_x (sheet_frames r ! i) + at_w (sheet_frames r ! i) \<le> sheet_width r \<and>
        at_y (sheet_frames r ! i) + at_h (sheet_frames r ! i) \<le> sheet_height r"
    if i: "i < length frames" for i
  proof -
    have mem: "frames ! i \<in> set frames" using i by simp
    have wi: "width (dims (frames ! i)) \<le> mw" and hi: "height (dims (frames ! i)) \<le> mh"
      unfolding mw_def mh_def using mem by simp_all
    have "0 \<le> width (dims (frames ! i))" "0 \<le> height (dims (frames ! i))"
      using assms(5) mem by blast+
    then have pos: "0 \<le> mw + p" "0 \<le> mh + p"
      using wi hi assms(4) by (simp_all add: p_def)
    have i': "0 \<le> int i" "int i < int (length frames)" using i by simp_all
    note idx = index_in_grid [OF i' shape(1,3)]
    have x: "fst (cell_origin cols mw mh p (int i)) = (int i mod cols) * (mw + p)"
      and y: "snd (cell_origin cols mw mh p (int i)) = (int i div cols) * (mh + p)"
      using shape(1) by (simp_all add: cell_origin_def Let_def js_rem_pos Math_floor_div_def)
    show ?thesis
      using cell_within_bounds [OF idx(1,2) pos(1) wi] cell_within_bounds [OF idx(3,4) pos(2) hi] i
      by (simp add: fr w h x y)
  qed
  with r show ?thesis by blast
qed

theorem C10_placements_within_canvas_witness:
  "\<exists>r. generateSpritesheet example_platform four_frames grid_2_config = Inr r \<and>
     sheet_width r = 22 \<and> sheet_height r = 22 \<and>
     at_x (sheet_frames r ! 3) + at_w (sheet_frames r ! 3) \<le> 22 \<and>
     at_y (sheet_frames r ! 3) + at_h (sheet_frames r ! 3) \<le> 22"
proof -
  from C10_placements_within_canvas [of four_frames example_platform grid_2_config]
  obtain r where r: "generateSpritesheet example_platform four_frames grid_2_config = Inr r"
    and inside: "\<forall>i<4.
        0 \<le> at_x (sheet_frames r ! i) \<and>
        0 \<le> at_y (sheet_frames r ! i) \<and>
        at_x (sheet_frames r ! i) + at_w (sheet_frames r ! i) \<le> sheet_width r \<and>
        at_y (sheet_frames r ! i) + at_h (sheet_frames r ! i) \<le> sheet_height r"
    by (auto simp: four_frames_def example_platform_def grid_2_config_def sized_frame_def
        valid_columns_def)
  have size: "sheet_width r = 22 \<and> sheet_height r = 22"
    using r
    by (auto simp: generateSpritesheet_def resolve_grid_def Math_ceil_div_def four_frames_def
        sized_frame_def grid_2_config_def example_platform_def Let_def split_beta)
  from inside have "at_x (sheet_frames r ! 3) + at_w (sheet_frames r ! 3) \<le> sheet_width r"
    and "at_y (sheet_frames r ! 3) + at_h (sheet_frames r ! 3) \<le> sheet_height r"
    by simp_all
  with r size show ?thesis by auto
qed

end
